theory Spec2Isabelle
  imports Complex_Main "HOL-Library.Word"
begin

section \<open>Data frames\<close>

text \<open>
  The program \<^verbatim>\<open>etl.py\<close> is a sequence of calls of the Spark DataFrame interface. A data
  frame is modelled as a list of column names with a list of rows; a cell is null, a
  boolean, a 64-bit integer, a double, a string or a timestamp (microseconds since the
  epoch, as Spark stores it). Doubles are only carried from the input to the output, so
  they are kept as real numbers.
\<close>

datatype val = Null | Bool bool | Long int | Dbl real | Str string | Ts int

type_synonym row = "val list"

record dataframe =
  columns :: "string list"
  rows :: "row list"

datatype error = AnalysisException | PythonException | KeyError

text \<open>A cell of a row; a row shorter than the schema reads as null there.\<close>

definition cell :: "row \<Rightarrow> nat \<Rightarrow> val" where
  "cell r i = (if i < length r then r ! i else Null)"

text \<open>
  Column names are resolved without regard to case (Spark's default,
  \<^verbatim>\<open>spark.sql.caseSensitive = false\<close>; the program itself writes the same column
  as \<^verbatim>\<open>UserId\<close> and as \<^verbatim>\<open>userId\<close>). A name that no column or more than one
  column carries is an \<^verbatim>\<open>AnalysisException\<close>. A character is a byte with its bits
  from the lowest; the capital letters of ASCII are the codes 65 to 90 (bit 6 set, bits 5
  and 7 clear, the low five bits from 1 to 26) and setting bit 5 gives the small letter.
\<close>

fun lower :: "char \<Rightarrow> char" where
  "lower (Char b0 b1 b2 b3 b4 b5 b6 b7) =
     (if \<not> b7 \<and> b6 \<and> \<not> b5 \<and> (b0 \<or> b1 \<or> b2 \<or> b3 \<or> b4) \<and> \<not> (b4 \<and> b3 \<and> (b2 \<or> b1 \<and> b0))
      then Char b0 b1 b2 b3 b4 True b6 b7
      else Char b0 b1 b2 b3 b4 b5 b6 b7)"

definition same_name :: "string \<Rightarrow> string \<Rightarrow> bool" where
  "same_name a b = (map lower a = map lower b)"

definition resolve :: "string list \<Rightarrow> string \<Rightarrow> error + nat" where
  "resolve cs name =
     (case filter (\<lambda>i. same_name (cs ! i) name) [0..<length cs] of
        [i] \<Rightarrow> Inr i
      | _ \<Rightarrow> Inl AnalysisException)"

text \<open>
  A column expression, given the schema it is evaluated against, fails to resolve or
  yields the name of the column it produces and its value on every row. The value may
  depend on the position of the row in the frame (\<^verbatim>\<open>monotonically_increasing_id\<close>)
  and its computation may raise (a Python function applied to the row).
\<close>

type_synonym evaluator = "nat \<Rightarrow> row \<Rightarrow> error + val"

type_synonym column = "string list \<Rightarrow> error + (string \<times> evaluator)"

text \<open>\<^verbatim>\<open>col(name)\<close>, also a bare string in \<^verbatim>\<open>select\<close>: the resolved column takes the name as written.\<close>

definition col :: "string \<Rightarrow> column" where
  "col name cs =
     (case resolve cs name of
        Inl e \<Rightarrow> Inl e
      | Inr i \<Rightarrow> Inr (name, \<lambda>k r. Inr (cell r i)))"

text \<open>The column at a position, under the name it has.\<close>

definition col_at :: "nat \<Rightarrow> column" where
  "col_at i cs = Inr (cs ! i, \<lambda>k r. Inr (cell r i))"

definition alias_to :: "column \<Rightarrow> string \<Rightarrow> column" where
  "alias_to c name cs =
     (case c cs of
        Inl e \<Rightarrow> Inl e
      | Inr (n, f) \<Rightarrow> Inr (name, f))"

text \<open>
  \<^verbatim>\<open>df[name]\<close> and \<^verbatim>\<open>df.name\<close>: a column of the frame \<^verbatim>\<open>df\<close> itself. The name is
  resolved in the schema of \<^verbatim>\<open>df\<close>. The reference can be used in a frame that holds
  the schema of \<^verbatim>\<open>df\<close> as a block of adjacent columns at exactly one place (a join lays
  the schemas of its operands side by side, and a new column is appended on the right);
  anywhere else it is an \<^verbatim>\<open>AnalysisException\<close>.
\<close>

definition block_offset :: "string list \<Rightarrow> string list \<Rightarrow> error + nat" where
  "block_offset cs sch =
     (case filter (\<lambda>k. take (length cs) (drop k sch) = cs) [0..<Suc (length sch - length cs)] of
        [k] \<Rightarrow> Inr k
      | _ \<Rightarrow> Inl AnalysisException)"

definition df_col :: "dataframe \<Rightarrow> string \<Rightarrow> column" where
  "df_col df name sch =
     (case resolve (columns df) name of
        Inl e \<Rightarrow> Inl e
      | Inr i \<Rightarrow>
         (case block_offset (columns df) sch of
            Inl e \<Rightarrow> Inl e
          | Inr k \<Rightarrow> Inr (name, \<lambda>n r. Inr (cell r (k + i)))))"

text \<open>Comparison and conjunction are three-valued: null compares equal to nothing.\<close>

definition eq3 :: "val \<Rightarrow> val \<Rightarrow> val" where
  "eq3 a b = (if a = Null \<or> b = Null then Null else Bool (a = b))"

definition and3 :: "val \<Rightarrow> val \<Rightarrow> val" where
  "and3 a b =
     (if a = Bool False \<or> b = Bool False then Bool False
      else if a = Bool True \<and> b = Bool True then Bool True
      else Null)"

definition lift2 :: "string \<Rightarrow> (val \<Rightarrow> val \<Rightarrow> val) \<Rightarrow> column \<Rightarrow> column \<Rightarrow> column" where
  "lift2 opname g a b sch =
     (case a sch of
        Inl e \<Rightarrow> Inl e
      | Inr (n, f) \<Rightarrow>
         (case b sch of
            Inl e \<Rightarrow> Inl e
          | Inr (m, h) \<Rightarrow>
              Inr (''('' @ n @ opname @ m @ '')'',
                   \<lambda>k r. (case f k r of
                             Inl e \<Rightarrow> Inl e
                           | Inr x \<Rightarrow> (case h k r of Inl e \<Rightarrow> Inl e | Inr y \<Rightarrow> Inr (g x y))))))"

definition lit :: "string \<Rightarrow> column" where
  "lit s sch = Inr (s, \<lambda>k r. Inr (Str s))"

definition eq_col :: "column \<Rightarrow> column \<Rightarrow> column" where
  "eq_col = lift2 '' = '' eq3"

definition and_col :: "column \<Rightarrow> column \<Rightarrow> column" where
  "and_col = lift2 '' AND '' and3"

text \<open>A function of one column: a built-in (total) or a Python function (may raise).\<close>

definition apply1 :: "string \<Rightarrow> (val \<Rightarrow> error + val) \<Rightarrow> column \<Rightarrow> column" where
  "apply1 fname g c sch =
     (case c sch of
        Inl e \<Rightarrow> Inl e
      | Inr (n, f) \<Rightarrow>
          Inr (fname @ ''('' @ n @ '')'',
               \<lambda>k r. (case f k r of Inl e \<Rightarrow> Inl e | Inr x \<Rightarrow> g x)))"

fun traverse :: "('a \<Rightarrow> error + 'b) \<Rightarrow> 'a list \<Rightarrow> error + 'b list" where
  "traverse f [] = Inr []"
| "traverse f (x # xs) =
     (case f x of
        Inl e \<Rightarrow> Inl e
      | Inr y \<Rightarrow> (case traverse f xs of Inl e \<Rightarrow> Inl e | Inr ys \<Rightarrow> Inr (y # ys)))"

text \<open>\<^verbatim>\<open>df.select(c1, ..., cn)\<close>: one output row per input row, in the same order.\<close>

definition select :: "column list \<Rightarrow> dataframe \<Rightarrow> error + dataframe" where
  "select cs df =
     (case traverse (\<lambda>c. c (columns df)) cs of
        Inl e \<Rightarrow> Inl e
      | Inr nfs \<Rightarrow>
         (case traverse (\<lambda>(k, r). traverse (\<lambda>(n, f). f k r) nfs) (enumerate 0 (rows df)) of
            Inl e \<Rightarrow> Inl e
          | Inr rs \<Rightarrow> Inr \<lparr>columns = map fst nfs, rows = rs\<rparr>))"

text \<open>\<^verbatim>\<open>df.filter(c)\<close> keeps the rows on which the condition is true (not false, not null).\<close>

definition filter_df :: "column \<Rightarrow> dataframe \<Rightarrow> error + dataframe" where
  "filter_df c df =
     (case c (columns df) of
        Inl e \<Rightarrow> Inl e
      | Inr (n, f) \<Rightarrow>
         (case traverse (\<lambda>(k, r). f k r) (enumerate 0 (rows df)) of
            Inl e \<Rightarrow> Inl e
          | Inr vs \<Rightarrow> Inr (df\<lparr>rows := map fst (filter (\<lambda>(r, v). v = Bool True) (zip (rows df) vs))\<rparr>)))"

text \<open>
  \<^verbatim>\<open>df.withColumn(name, c)\<close> replaces every column of that name, or appends the column
  when there is none; Spark defines it as the \<^verbatim>\<open>select\<close> below.
\<close>

definition withColumn :: "string \<Rightarrow> column \<Rightarrow> dataframe \<Rightarrow> error + dataframe" where
  "withColumn name c df =
     (if \<exists>i \<in> set [0..<length (columns df)]. same_name (columns df ! i) name
      then select (map (\<lambda>i. if same_name (columns df ! i) name then alias_to c name else col_at i)
                     [0..<length (columns df)]) df
      else select (map col_at [0..<length (columns df)] @ [alias_to c name]) df)"

text \<open>
  \<^verbatim>\<open>left.join(right, on, how='left')\<close>: every row of the left frame with every row of the
  right frame on which the condition is true, and once with nulls on the right when
  there is no such row. The order of the rows of a join is not specified by Spark; the
  model keeps the order of the left frame.
\<close>

definition matches :: "evaluator \<Rightarrow> row list \<Rightarrow> row \<Rightarrow> row list" where
  "matches f rs l = filter (\<lambda>r. f 0 (l @ r) = Inr (Bool True)) rs"

definition join_row :: "evaluator \<Rightarrow> dataframe \<Rightarrow> row \<Rightarrow> row list" where
  "join_row f right l =
     (if matches f (rows right) l = [] then [l @ replicate (length (columns right)) Null]
      else map (\<lambda>r. l @ r) (matches f (rows right) l))"

definition join_left :: "dataframe \<Rightarrow> dataframe \<Rightarrow> column \<Rightarrow> error + dataframe" where
  "join_left left right on =
     (case on (columns left @ columns right) of
        Inl e \<Rightarrow> Inl e
      | Inr (n, f) \<Rightarrow>
          Inr \<lparr>columns = columns left @ columns right,
               rows = concat (map (join_row f right) (rows left))\<rparr>)"

section \<open>The session, the functions of time and the output store\<close>

text \<open>
  What the program takes from its environment is gathered in the session:
  \<^item> \<^verbatim>\<open>spark.read.json(path)\<close>, the frame read from a path (the reader infers the schema
    from the records; it is outside the program);
  \<^item> \<^verbatim>\<open>datetime.fromtimestamp(s)\<close> of Python, from seconds to a timestamp in the local
    time zone of the worker, \<open>None\<close> when it raises (a value out of range);
  \<^item> Spark's \<^verbatim>\<open>hour\<close>, \<^verbatim>\<open>dayofweek\<close>, \<^verbatim>\<open>weekofyear\<close>, \<^verbatim>\<open>month\<close> and \<^verbatim>\<open>year\<close> of a
    timestamp, in the time zone of the session;
  \<^item> how the engine has laid the rows of the joined frame out in partitions: the sizes
    of the partitions but the last, in order (the last partition holds the rest).
\<close>

record session =
  read_json :: "string \<Rightarrow> error + dataframe"
  fromtimestamp :: "real \<Rightarrow> int option"
  hour_of :: "int \<Rightarrow> int"
  dayofweek_of :: "int \<Rightarrow> int"
  weekofyear_of :: "int \<Rightarrow> int"
  month_of :: "int \<Rightarrow> int"
  year_of :: "int \<Rightarrow> int"
  partition_sizes :: "nat list"

text \<open>A built-in function of a timestamp column, given the name of the column; null on anything else.\<close>

definition on_timestamp :: "(int \<Rightarrow> int) \<Rightarrow> val \<Rightarrow> error + val" where
  "on_timestamp g v = (case v of Ts t \<Rightarrow> Inr (Long (g t)) | _ \<Rightarrow> Inr Null)"

definition hour :: "session \<Rightarrow> string \<Rightarrow> column" where
  "hour spark name = apply1 ''hour'' (on_timestamp (hour_of spark)) (col name)"

definition dayofweek :: "session \<Rightarrow> string \<Rightarrow> column" where
  "dayofweek spark name = apply1 ''dayofweek'' (on_timestamp (dayofweek_of spark)) (col name)"

definition weekofyear :: "session \<Rightarrow> string \<Rightarrow> column" where
  "weekofyear spark name = apply1 ''weekofyear'' (on_timestamp (weekofyear_of spark)) (col name)"

definition month :: "session \<Rightarrow> string \<Rightarrow> column" where
  "month spark name = apply1 ''month'' (on_timestamp (month_of spark)) (col name)"

definition year :: "session \<Rightarrow> string \<Rightarrow> column" where
  "year spark name = apply1 ''year'' (on_timestamp (year_of spark)) (col name)"

text \<open>
  \<^verbatim>\<open>get_timestamp = udf(lambda x: datetime.fromtimestamp(x / 1000), TimestampType())\<close>.
  Python's \<^verbatim>\<open>x / 1000\<close> is defined on numbers (a boolean counts as 0 or 1) and raises
  \<^verbatim>\<open>TypeError\<close> on \<^verbatim>\<open>None\<close>, on a string and on a datetime.
\<close>

definition from_seconds :: "session \<Rightarrow> real \<Rightarrow> error + val" where
  "from_seconds spark s = (case fromtimestamp spark s of None \<Rightarrow> Inl PythonException | Some t \<Rightarrow> Inr (Ts t))"

definition get_timestamp_fn :: "session \<Rightarrow> val \<Rightarrow> error + val" where
  "get_timestamp_fn spark x =
     (case x of
        Long n \<Rightarrow> from_seconds spark (real_of_int n / 1000)
      | Dbl d \<Rightarrow> from_seconds spark (d / 1000)
      | Bool b \<Rightarrow> from_seconds spark ((if b then 1 else 0) / 1000)
      | _ \<Rightarrow> Inl PythonException)"

definition get_timestamp :: "session \<Rightarrow> column \<Rightarrow> column" where
  "get_timestamp spark = apply1 ''<lambda>'' (get_timestamp_fn spark)"

text \<open>
  \<^verbatim>\<open>monotonically_increasing_id()\<close>: Spark puts the number of the partition in the upper
  31 bits of a 64-bit integer and the number of the record within its partition in the
  lower 33 bits.
\<close>

fun locate :: "nat list \<Rightarrow> nat \<Rightarrow> nat \<Rightarrow> nat \<times> nat" where
  "locate [] p k = (p, k)"
| "locate (n # ns) p k = (if k < n then (p, k) else locate ns (Suc p) (k - n))"

definition monotonic_id :: "nat \<times> nat \<Rightarrow> int" where
  "monotonic_id loc = sint (push_bit 33 (word_of_nat (fst loc) :: 64 word) + word_of_nat (snd loc))"

definition monotonically_increasing_id :: "session \<Rightarrow> column" where
  "monotonically_increasing_id spark sch =
     Inr (''monotonically_increasing_id()'',
          \<lambda>k r. Inr (Long (monotonic_id (locate (partition_sizes spark) 0 k))))"

text \<open>
  The output store maps a path to the data set written there: the columns it is
  partitioned by and the table. Every write of the program has mode
  \<^verbatim>\<open>'overwrite'\<close>: it replaces whatever the path held. \<^verbatim>\<open>partitionBy\<close> resolves its
  column names in the frame.
\<close>

record dataset =
  partitioned_by :: "string list"
  table :: dataframe

type_synonym store = "string \<Rightarrow> dataset option"

type_synonym 'a run = "store \<Rightarrow> (error + 'a) \<times> store"

definition done_with :: "'a \<Rightarrow> 'a run" where
  "done_with x st = (Inr x, st)"

definition pure_step :: "error + 'a \<Rightarrow> 'a run" where
  "pure_step m st = (m, st)"

definition and_then :: "'a run \<Rightarrow> ('a \<Rightarrow> 'b run) \<Rightarrow> 'b run" where
  "and_then m f st =
     (case m st of
        (Inl e, st') \<Rightarrow> (Inl e, st')
      | (Inr x, st') \<Rightarrow> f x st')"

definition write_parquet :: "dataframe \<Rightarrow> string list \<Rightarrow> string \<Rightarrow> unit run" where
  "write_parquet df keys path st =
     (case traverse (resolve (columns df)) keys of
        Inl e \<Rightarrow> (Inl e, st)
      | Inr _ \<Rightarrow> (Inr (), st(path \<mapsto> \<lparr>partitioned_by = keys, table = df\<rparr>)))"

section \<open>The program\<close>

definition process_song_data :: "session \<Rightarrow> string \<Rightarrow> string \<Rightarrow> dataframe run" where
  "process_song_data spark input_data output_dir =
     and_then (pure_step (read_json spark input_data)) (\<lambda>df.
     and_then (pure_step (select [col ''song_id'', col ''title'', col ''artist_id'', col ''year'',
                                  col ''duration''] df)) (\<lambda>songs_table.
     and_then (write_parquet songs_table [''year'', ''artist_id''] (output_dir @ ''/songs.parquet'')) (\<lambda>_.
     and_then (pure_step (select [col ''artist_id'',
                                  alias_to (col ''artist_name'') ''name'',
                                  alias_to (col ''artist_location'') ''location'',
                                  alias_to (col ''artist_latitude'') ''latitude'',
                                  alias_to (col ''artist_longitude'') ''longitude''] df)) (\<lambda>artists_table.
     and_then (write_parquet artists_table [] (output_dir @ ''/artists.parquet'')) (\<lambda>_.
     done_with df)))))"

definition process_log_data :: "session \<Rightarrow> string \<Rightarrow> string \<Rightarrow> dataframe run" where
  "process_log_data spark input_data output_dir =
     and_then (pure_step (read_json spark input_data)) (\<lambda>df.
     and_then (pure_step (filter_df (eq_col (df_col df ''page'') (lit ''NextSong'')) df)) (\<lambda>df.
     and_then (pure_step (select [alias_to (col ''UserId'') ''user_id'',
                                  alias_to (col ''FirstName'') ''first_name'',
                                  alias_to (col ''LastName'') ''last_name'',
                                  col ''gender'',
                                  col ''level''] df)) (\<lambda>artists_table.
     and_then (write_parquet artists_table [] (output_dir @ ''/users.parquet'')) (\<lambda>_.
     and_then (pure_step (withColumn ''start_time'' (get_timestamp spark (df_col df ''ts'')) df)) (\<lambda>df.
     and_then (pure_step (withColumn ''hour'' (hour spark ''start_time'') df)) (\<lambda>df.
     and_then (pure_step (withColumn ''day'' (dayofweek spark ''start_time'') df)) (\<lambda>df.
     and_then (pure_step (withColumn ''week'' (weekofyear spark ''start_time'') df)) (\<lambda>df.
     and_then (pure_step (withColumn ''month'' (month spark ''start_time'') df)) (\<lambda>df.
     and_then (pure_step (withColumn ''year'' (year spark ''start_time'') df)) (\<lambda>df.
     and_then (pure_step (withColumn ''weekday'' (dayofweek spark ''start_time'') df)) (\<lambda>df.
     and_then (pure_step (select [col ''start_time'', col ''hour'', col ''day'', col ''week'',
                                  col ''month'', col ''year'', col ''weekday''] df)) (\<lambda>time_table.
     and_then (write_parquet time_table [''year'', ''month''] (output_dir @ ''/time.parquet'')) (\<lambda>_.
     done_with df)))))))))))))"

definition process_songplay_data :: "session \<Rightarrow> dataframe \<Rightarrow> dataframe \<Rightarrow> string \<Rightarrow> unit run" where
  "process_songplay_data spark song_df log_df output_dir =
     and_then (pure_step (join_left log_df song_df
                 (and_col (eq_col (df_col log_df ''artist'') (df_col song_df ''artist_name''))
                          (eq_col (df_col log_df ''song'') (df_col song_df ''title''))))) (\<lambda>df.
     and_then (pure_step (withColumn ''songplay_id'' (monotonically_increasing_id spark) df)) (\<lambda>df.
     and_then (pure_step (select [col ''songplay_id'',
                                  col ''start_time'',
                                  alias_to (col ''userId'') ''user_id'',
                                  col ''level'',
                                  col ''song_id'',
                                  col ''artist_id'',
                                  alias_to (col ''sessionId'') ''session_id'',
                                  col ''location'',
                                  col ''useragent'',
                                  df_col log_df ''year'',
                                  col ''month''] df)) (\<lambda>songplays.
     write_parquet songplays [''year'', ''month''] (output_dir @ ''/songplay.parquet''))))"

text \<open>
  \<^verbatim>\<open>main(data_loc)\<close> looks the three paths up in the configuration file (a missing
  section or key is a \<^verbatim>\<open>KeyError\<close>); for \<^verbatim>\<open>'AWS'\<close> it reads the two access keys first.
\<close>

type_synonym config = "string \<Rightarrow> string \<Rightarrow> string option"

definition lookup :: "config \<Rightarrow> string \<Rightarrow> string \<Rightarrow> string run" where
  "lookup config section' key st =
     (case config section' key of None \<Rightarrow> (Inl KeyError, st) | Some v \<Rightarrow> (Inr v, st))"

definition main :: "config \<Rightarrow> session \<Rightarrow> string \<Rightarrow> unit run" where
  "main config spark data_loc =
     and_then (if data_loc = ''AWS''
               then and_then (lookup config ''AWS'' ''AWS_ACCESS_KEY_ID'') (\<lambda>_.
                    lookup config ''AWS'' ''AWS_SECRET_ACCESS_KEY'')
               else done_with []) (\<lambda>_.
     and_then (lookup config data_loc ''INPUT_SONG_DATA'') (\<lambda>input_song_data.
     and_then (lookup config data_loc ''INPUT_LOG_DATA'') (\<lambda>input_log_data.
     and_then (lookup config data_loc ''OUTPUT_DATA'') (\<lambda>output_dir.
     and_then (process_song_data spark input_song_data output_dir) (\<lambda>song_df.
     and_then (process_log_data spark input_log_data output_dir) (\<lambda>log_df.
     process_songplay_data spark song_df log_df output_dir))))))"

section \<open>Notions used to state the properties\<close>

text \<open>The value of a row in the column of a given name; null when the name does not resolve.\<close>

definition field :: "string list \<Rightarrow> row \<Rightarrow> string \<Rightarrow> val" where
  "field cs r n = (case resolve cs n of Inr i \<Rightarrow> cell r i | Inl e \<Rightarrow> Null)"

text \<open>A column selected by name and given an output name: \<^verbatim>\<open>col(a).alias(b)\<close>; \<^verbatim>\<open>col(a)\<close> is the case \<open>b = a\<close>.\<close>

definition pick :: "string \<times> string \<Rightarrow> column" where
  "pick p = alias_to (col (fst p)) (snd p)"

text \<open>
  A frame keeps the columns of another but for some names: the same number of rows, and
  every other name resolves the same way and reads the same value in every row.
\<close>

definition kept :: "string list \<Rightarrow> dataframe \<Rightarrow> dataframe \<Rightarrow> bool" where
  "kept names df df' \<longleftrightarrow>
     length (rows df') = length (rows df) \<and>
     (\<forall>m. (\<forall>x \<in> set names. \<not> same_name m x) \<longrightarrow>
        resolve (columns df') m = resolve (columns df) m \<and>
        (\<forall>k < length (rows df). field (columns df') (rows df' ! k) m = field (columns df) (rows df ! k) m))"

text \<open>
  The rows of the right frame that the join condition of \<^verbatim>\<open>process_songplay_data\<close> pairs
  with a row of the left frame: artist equal to \<^verbatim>\<open>artist_name\<close> and song equal to
  \<^verbatim>\<open>title\<close>, neither of them null.
\<close>

definition catalog_hits :: "dataframe \<Rightarrow> dataframe \<Rightarrow> row \<Rightarrow> row list" where
  "catalog_hits left right l =
     filter (\<lambda>r. field (columns left) l ''artist'' \<noteq> Null \<and>
                 field (columns left) l ''artist'' = field (columns right) r ''artist_name'' \<and>
                 field (columns left) l ''song'' \<noteq> Null \<and>
                 field (columns left) l ''song'' = field (columns right) r ''title'') (rows right)"

text \<open>The play events of a log frame: its rows with page \<^verbatim>\<open>NextSong\<close>.\<close>

definition plays_of :: "dataframe \<Rightarrow> row list" where
  "plays_of df = filter (\<lambda>l. field (columns df) l ''page'' = Str ''NextSong'') (rows df)"

section \<open>A worked example\<close>

text \<open>
  One environment in which the program is run on concrete data: a session in the time zone
  UTC whose Python worker converts seconds to microseconds exactly. The calendar of a
  day number (days since 1970-01-01) is computed in the proleptic Gregorian calendar, by
  eras of 400 years that start on the first of March; the week is the ISO week, the week
  of the Thursday of the day. Spark's day of the week is 1 for Sunday.
\<close>

definition year_of_era :: "int \<Rightarrow> int" where
  "year_of_era doe = (doe - doe div 1460 + doe div 36524 - doe div 146096) div 365"

definition day_of_year :: "int \<Rightarrow> int \<Rightarrow> int" where
  "day_of_year doe yoe = doe - (365 * yoe + yoe div 4 - yoe div 100)"

definition civil_month :: "int \<Rightarrow> int" where
  "civil_month mp = (if mp < 10 then mp + 3 else mp - 9)"

definition month_of_day :: "int \<Rightarrow> int" where
  "month_of_day days =
     civil_month ((5 * day_of_year ((days + 719468) mod 146097) (year_of_era ((days + 719468) mod 146097)) + 2) div 153)"

definition year_of_day :: "int \<Rightarrow> int" where
  "year_of_day days =
     year_of_era ((days + 719468) mod 146097) + (days + 719468) div 146097 * 400 +
       (if month_of_day days \<le> 2 then 1 else 0)"

definition new_year_day :: "int \<Rightarrow> int" where
  "new_year_day y =
     (y - 1) div 400 * 146097 +
       ((y - 1) mod 400 * 365 + (y - 1) mod 400 div 4 - (y - 1) mod 400 div 100 + 306) - 719468"

definition week_of_thursday :: "int \<Rightarrow> int" where
  "week_of_thursday th = (th - new_year_day (year_of_day th)) div 7 + 1"

definition iso_week :: "int \<Rightarrow> int" where
  "iso_week days = week_of_thursday (days - (days + 3) mod 7 + 3)"

text \<open>
  The song catalogue holds the same title of the same artist twice, under two song
  identifiers. The log holds a play of that song, a login, and a play whose artist is
  null; both plays have the same time stamp. A second log holds one play whose time stamp
  is null.
\<close>

definition song_frame :: dataframe where
  "song_frame =
     \<lparr>columns = [''artist_id'', ''artist_latitude'', ''artist_location'', ''artist_longitude'',
                 ''artist_name'', ''duration'', ''num_songs'', ''song_id'', ''title'', ''year''],
      rows = [[Str ''A1'', Null, Str ''NY'', Null, Str ''Test Artist'', Dbl 180, Long 1,
               Str ''S1'', Str ''Test Song'', Long 2000],
              [Str ''A1'', Null, Str ''NY'', Null, Str ''Test Artist'', Dbl 200, Long 1,
               Str ''S2'', Str ''Test Song'', Long 2004]]\<rparr>"

definition log_frame :: dataframe where
  "log_frame =
     \<lparr>columns = [''artist'', ''auth'', ''firstName'', ''gender'', ''itemInSession'', ''lastName'',
                 ''length'', ''level'', ''location'', ''method'', ''page'', ''registration'',
                 ''sessionId'', ''song'', ''status'', ''ts'', ''userAgent'', ''userId''],
      rows = [[Str ''Test Artist'', Str ''Logged In'', Str ''Ann'', Str ''F'', Long 0, Str ''Lee'',
               Dbl 180, Str ''free'', Str ''NY'', Str ''PUT'', Str ''NextSong'', Dbl 1540000000000,
               Long 5, Str ''Test Song'', Long 200, Long 1000000000000, Str ''x'', Str ''U1''],
              [Null, Str ''Logged In'', Str ''Ann'', Str ''F'', Long 1, Str ''Lee'',
               Null, Str ''free'', Str ''NY'', Str ''GET'', Str ''Login'', Dbl 1540000000000,
               Long 5, Null, Long 200, Long 1000000000001, Str ''x'', Str ''U1''],
              [Null, Str ''Logged In'', Str ''Bob'', Str ''M'', Long 0, Str ''Ray'',
               Dbl 180, Str ''paid'', Str ''LA'', Str ''PUT'', Str ''NextSong'', Dbl 1540000000000,
               Long 6, Str ''Test Song'', Long 200, Long 1000000000000, Str ''y'', Str ''U2'']]\<rparr>"

definition bad_log_frame :: dataframe where
  "bad_log_frame =
     \<lparr>columns = [''artist'', ''auth'', ''firstName'', ''gender'', ''itemInSession'', ''lastName'',
                 ''length'', ''level'', ''location'', ''method'', ''page'', ''registration'',
                 ''sessionId'', ''song'', ''status'', ''ts'', ''userAgent'', ''userId''],
      rows = [[Str ''Test Artist'', Str ''Logged In'', Str ''Ann'', Str ''F'', Long 0, Str ''Lee'',
               Dbl 180, Str ''free'', Str ''NY'', Str ''PUT'', Str ''NextSong'', Dbl 1540000000000,
               Long 5, Str ''Test Song'', Long 200, Null, Str ''x'', Str ''U1'']]\<rparr>"

definition utc :: session where
  "utc = \<lparr>read_json = (\<lambda>p. if p = ''song_data'' then Inr song_frame 
                          else if p = ''log_data'' then Inr log_frame
                          else if p = ''bad_log_data'' then Inr bad_log_frame
                          else Inl AnalysisException),
          fromtimestamp = (\<lambda>s. if - 62135596800 \<le> s \<and> s < 253402300800 then Some (round (s * 1000000)) else None),
          hour_of = (\<lambda>t. (t div 3600000000) mod 24),
          dayofweek_of = (\<lambda>t. (t div 86400000000 + 4) mod 7 + 1),
          weekofyear_of = (\<lambda>t. iso_week (t div 86400000000)),
          month_of = (\<lambda>t. month_of_day (t div 86400000000)),
          year_of = (\<lambda>t. year_of_day (t div 86400000000)),
          partition_sizes = [1]\<rparr>"

definition cfg :: config where
  "cfg s k =
     (if s = ''LOCAL''
      then (if k = ''INPUT_SONG_DATA'' then Some ''song_data''
            else if k = ''INPUT_LOG_DATA'' then Some ''log_data''
            else if k = ''OUTPUT_DATA'' then Some ''out''
            else None)
      else None)"

section \<open>Properties of the frame operations\<close>

lemma same_name_refl: "same_name a a"
  by (simp add: same_name_def)

lemma same_name_sym: "same_name a b \<Longrightarrow> same_name b a"
  by (simp add: same_name_def)

lemma same_name_trans: "same_name a b \<Longrightarrow> same_name b c \<Longrightarrow> same_name a c"
  by (simp add: same_name_def)

lemma singleton_filter:
  assumes "distinct xs"
  shows "filter P xs = [x] \<longleftrightarrow> x \<in> set xs \<and> P x \<and> (\<forall>y \<in> set xs. P y \<longrightarrow> y = x)"
proof
  assume h: "filter P xs = [x]"
  then have "set (filter P xs) = {x}" by simp
  then show "x \<in> set xs \<and> P x \<and> (\<forall>y \<in> set xs. P y \<longrightarrow> y = x)" by auto
next
  assume h: "x \<in> set xs \<and> P x \<and> (\<forall>y \<in> set xs. P y \<longrightarrow> y = x)"
  then have s: "set (filter P xs) = {x}" by auto
  have d: "distinct (filter P xs)" using assms by simp
  show "filter P xs = [x]"
  proof (cases "filter P xs")
    case Nil
    with s show ?thesis by simp
  next
    case (Cons a as)
    with s d have "a = x" "set as \<subseteq> {x}" "a \<notin> set as" by auto
    then have "as = []" by (cases as) auto
    with Cons \<open>a = x\<close> show ?thesis by simp
  qed
qed

lemma resolve_Inr_iff:
  "resolve cs n = Inr i \<longleftrightarrow>
     i < length cs \<and> same_name (cs ! i) n \<and> (\<forall>j < length cs. same_name (cs ! j) n \<longrightarrow> j = i)"
proof -
  have "resolve cs n = Inr i \<longleftrightarrow> filter (\<lambda>i. same_name (cs ! i) n) [0..<length cs] = [i]"
    by (auto simp: resolve_def split: list.splits)
  also have "\<dots> \<longleftrightarrow> i < length cs \<and> same_name (cs ! i) n \<and> (\<forall>j < length cs. same_name (cs ! j) n \<longrightarrow> j = i)"
    by (subst singleton_filter) auto
  finally show ?thesis .
qed

lemma resolve_Inl: "resolve cs n = Inl e \<Longrightarrow> e = AnalysisException"
  by (auto simp: resolve_def split: list.splits)

lemma resolve_same_name: "same_name n m \<Longrightarrow> resolve cs n = resolve cs m"
proof -
  assume "same_name n m"
  then have "\<And>c. same_name c n = same_name c m"
    by (auto simp: same_name_def)
  then show ?thesis by (simp add: resolve_def)
qed

lemma traverse_Inr_iff:
  "traverse f xs = Inr ys \<longleftrightarrow> list_all2 (\<lambda>x y. f x = Inr y) xs ys"
proof (induction xs arbitrary: ys)
  case Nil
  then show ?case by auto
next
  case (Cons x xs)
  show ?case
    by (auto simp: list_all2_Cons1 Cons.IH [symmetric] split: sum.splits)
qed

lemma traverse_total: "traverse (\<lambda>x. Inr (g x)) xs = Inr (map g xs)"
  by (induction xs) auto

lemma traverse_length: "traverse f xs = Inr ys \<Longrightarrow> length ys = length xs"
  by (auto simp: traverse_Inr_iff dest: list_all2_lengthD)

lemma traverse_nth: "traverse f xs = Inr ys \<Longrightarrow> i < length xs \<Longrightarrow> f (xs ! i) = Inr (ys ! i)"
  by (auto simp: traverse_Inr_iff dest: list_all2_nthD)

lemma select_Inr:
  assumes "select cs df = Inr df'"
  shows "\<exists>nfs. traverse (\<lambda>c. c (columns df)) cs = Inr nfs \<and> columns df' = map fst nfs \<and>
           length (rows df') = length (rows df) \<and>
           (\<forall>k < length (rows df). traverse (\<lambda>(n, f). f k (rows df ! k)) nfs = Inr (rows df' ! k))"
proof -
  from assms obtain nfs rs where n: "traverse (\<lambda>c. c (columns df)) cs = Inr nfs"
    and r: "traverse (\<lambda>(k, r). traverse (\<lambda>(n, f). f k r) nfs) (enumerate 0 (rows df)) = Inr rs"
    and d: "df' = \<lparr>columns = map fst nfs, rows = rs\<rparr>"
    by (auto simp: select_def split: sum.splits)
  have len: "length rs = length (rows df)" using traverse_length [OF r] by simp
  have "\<forall>k < length (rows df). traverse (\<lambda>(n, f). f k (rows df ! k)) nfs = Inr (rs ! k)"
  proof (intro allI impI)
    fix k assume k: "k < length (rows df)"
    then have "k < length (enumerate 0 (rows df))" by simp
    from traverse_nth [OF r this] k show "traverse (\<lambda>(n, f). f k (rows df ! k)) nfs = Inr (rs ! k)"
      by (simp add: nth_enumerate_eq)
  qed
  with n d len show ?thesis by auto
qed

lemma traverse_map: "traverse f (map g xs) = traverse (\<lambda>x. f (g x)) xs"
  by (induction xs) (auto split: sum.splits)

lemma traverse_append:
  "traverse f (xs @ ys) =
     (case traverse f xs of
        Inl e \<Rightarrow> Inl e
      | Inr a \<Rightarrow> (case traverse f ys of Inl e \<Rightarrow> Inl e | Inr b \<Rightarrow> Inr (a @ b)))"
  by (induction xs) (auto split: sum.splits)

lemma traverse_if:
  "traverse (\<lambda>x. if P x then m else Inr (h x)) xs =
     (if \<exists>x \<in> set xs. P x
      then (case m of Inl e \<Rightarrow> Inl e | Inr v \<Rightarrow> Inr (map (\<lambda>x. if P x then v else h x) xs))
      else Inr (map h xs))"
  by (induction xs) (auto split: sum.splits)

lemma traverse_cong: "(\<And>x. x \<in> set xs \<Longrightarrow> f x = g x) \<Longrightarrow> traverse f xs = traverse g xs"
  by (induction xs) (auto split: sum.splits)

lemma block_offset_self: "block_offset cs cs = Inr 0"
  by (simp add: block_offset_def)

lemma col_Inr: "col n cs = Inr p \<longleftrightarrow> (\<exists>i. resolve cs n = Inr i \<and> p = (n, \<lambda>k r. Inr (cell r i)))"
  by (auto simp: col_def split: sum.splits)

lemma alias_to_Inr: "alias_to c a cs = Inr p \<longleftrightarrow> (\<exists>n f. c cs = Inr (n, f) \<and> p = (a, f))"
  by (auto simp: alias_to_def split: sum.splits)

lemma apply1_Inr:
  "apply1 fname g c cs = Inr p \<longleftrightarrow>
     (\<exists>n f. c cs = Inr (n, f) \<and>
        p = (fname @ ''('' @ n @ '')'', \<lambda>k r. (case f k r of Inl e \<Rightarrow> Inl e | Inr x \<Rightarrow> g x)))"
  by (auto simp: apply1_def split: sum.splits)

lemma eq3_True: "eq3 a (Str s) = Bool True \<longleftrightarrow> a = Str s"
  by (auto simp: eq3_def)

lemma kept_rows:
  "map fst (filter (\<lambda>(r, v). v = Bool True) (zip rs (map (\<lambda>(k, r). g r) (enumerate n rs)))) =
     filter (\<lambda>r. g r = Bool True) rs"
  by (induction rs arbitrary: n) auto

lemma filter_page:
  assumes "filter_df (eq_col (df_col df name) (lit s)) df = Inr df'"
  shows "\<exists>i. resolve (columns df) name = Inr i \<and> columns df' = columns df \<and>
              rows df' = filter (\<lambda>r. cell r i = Str s) (rows df)"
proof -
  from assms obtain i where i: "resolve (columns df) name = Inr i"
    by (auto simp: filter_df_def eq_col_def lift2_def df_col_def split: sum.splits)
  have c: "eq_col (df_col df name) (lit s) (columns df) =
             Inr (''('' @ name @ '' = '' @ s @ '')'', \<lambda>k r. Inr (eq3 (cell r i) (Str s)))"
    by (simp add: eq_col_def lift2_def df_col_def lit_def i block_offset_self)
  have t: "traverse (\<lambda>(k, r). Inr (eq3 (cell r i) (Str s))) (enumerate 0 (rows df)) =
             Inr (map (\<lambda>(k, r). eq3 (cell r i) (Str s)) (enumerate 0 (rows df)))"
    using traverse_total [of "\<lambda>(k, r). eq3 (cell r i) (Str s)" "enumerate 0 (rows df)"]
    by (simp add: case_prod_unfold)
  from assms have "df' = df\<lparr>rows := filter (\<lambda>r. cell r i = Str s) (rows df)\<rparr>"
    by (simp add: filter_df_def c t kept_rows eq3_True)
  with i show ?thesis by auto
qed

lemma withColumn_Inr:
  assumes w: "withColumn name c df = Inr df'"
  shows "\<exists>nm f. c (columns df) = Inr (nm, f) \<and>
     columns df' =
       (if \<exists>i < length (columns df). same_name (columns df ! i) name
        then map (\<lambda>i. if same_name (columns df ! i) name then name else columns df ! i) [0..<length (columns df)]
        else columns df @ [name]) \<and>
     length (rows df') = length (rows df) \<and>
     (\<forall>k < length (rows df). \<exists>v. f k (rows df ! k) = Inr v \<and>
        rows df' ! k =
          (if \<exists>i < length (columns df). same_name (columns df ! i) name
           then map (\<lambda>i. if same_name (columns df ! i) name then v else cell (rows df ! k) i) [0..<length (columns df)]
           else map (cell (rows df ! k)) [0..<length (columns df)] @ [v]))"
proof (cases "\<exists>i < length (columns df). same_name (columns df ! i) name")
  case True
  let ?n = "length (columns df)"
  let ?hit = "\<lambda>i. same_name (columns df ! i) name"
  from True have ex: "\<exists>i \<in> set [0..<?n]. ?hit i" by auto
  from w True have s: "select (map (\<lambda>i. if ?hit i then alias_to c name else col_at i) [0..<?n]) df = Inr df'"
    by (auto simp: withColumn_def Let_def split: if_splits)
  from select_Inr [OF s] obtain nfs where
    n: "traverse (\<lambda>c. c (columns df)) (map (\<lambda>i. if ?hit i then alias_to c name else col_at i) [0..<?n]) = Inr nfs"
    and cs: "columns df' = map fst nfs"
    and len: "length (rows df') = length (rows df)"
    and rs: "\<forall>k < length (rows df). traverse (\<lambda>(n, f). f k (rows df ! k)) nfs = Inr (rows df' ! k)"
    by blast
  have "traverse (\<lambda>i. if ?hit i then alias_to c name (columns df)
                       else Inr (columns df ! i, \<lambda>k r. Inr (cell r i))) [0..<?n] = Inr nfs"
    using n by (simp add: traverse_map if_distrib [where f = "\<lambda>c. c (columns df)"] col_at_def cong: if_cong)
  with ex obtain p where a: "alias_to c name (columns df) = Inr p"
    and nfs: "nfs = map (\<lambda>i. if ?hit i then p else (columns df ! i, \<lambda>k r. Inr (cell r i))) [0..<?n]"
    by (auto simp: traverse_if split: sum.splits)
  from a obtain nm f where c: "c (columns df) = Inr (nm, f)" and p: "p = (name, f)"
    by (auto simp: alias_to_Inr)
  have cols: "columns df' = map (\<lambda>i. if ?hit i then name else columns df ! i) [0..<?n]"
    by (simp add: cs nfs p comp_def if_distrib [where f = fst] cong: if_cong)
  have rowfact: "\<exists>v. f k (rows df ! k) = Inr v \<and>
          rows df' ! k = map (\<lambda>i. if ?hit i then v else cell (rows df ! k) i) [0..<?n]"
    if k: "k < length (rows df)" for k
  proof -
    from rs k have "traverse (\<lambda>(n, f). f k (rows df ! k)) nfs = Inr (rows df' ! k)" by simp
    then have "traverse (\<lambda>i. if ?hit i then f k (rows df ! k) else Inr (cell (rows df ! k) i)) [0..<?n] =
                 Inr (rows df' ! k)"
      by (simp add: nfs p traverse_map if_distrib [where f = "\<lambda>q. case q of (n, f) \<Rightarrow> f k (rows df ! k)"] cong: if_cong)
    with ex show ?thesis
      by (auto simp: traverse_if split: sum.splits)
  qed
  from True have T: "(\<exists>i < length (columns df). same_name (columns df ! i) name) = True" by simp
  show ?thesis unfolding T if_True using c cols len rowfact by blast
next
  case False
  let ?n = "length (columns df)"
  from w False have s: "select (map col_at [0..<?n] @ [alias_to c name]) df = Inr df'"
    by (auto simp: withColumn_def Let_def split: if_splits)
  from select_Inr [OF s] obtain nfs where
    n: "traverse (\<lambda>c. c (columns df)) (map col_at [0..<?n] @ [alias_to c name]) = Inr nfs"
    and cs: "columns df' = map fst nfs"
    and len: "length (rows df') = length (rows df)"
    and rs: "\<forall>k < length (rows df). traverse (\<lambda>(n, f). f k (rows df ! k)) nfs = Inr (rows df' ! k)"
    by blast
  have t: "traverse (\<lambda>c. c (columns df)) (map col_at [0..<?n]) =
             Inr (map (\<lambda>i. (columns df ! i, \<lambda>k r. Inr (cell r i))) [0..<?n])"
    by (simp add: traverse_map col_at_def traverse_total)
  from n obtain p where a: "alias_to c name (columns df) = Inr p"
    and nfs: "nfs = map (\<lambda>i. (columns df ! i, \<lambda>k r. Inr (cell r i))) [0..<?n] @ [p]"
    by (auto simp: traverse_append t split: sum.splits)
  from a obtain nm f where c: "c (columns df) = Inr (nm, f)" and p: "p = (name, f)"
    by (auto simp: alias_to_Inr)
  have cols: "columns df' = columns df @ [name]"
    by (simp add: cs nfs p comp_def map_nth)
  have rowfact: "\<exists>v. f k (rows df ! k) = Inr v \<and>
          rows df' ! k = map (cell (rows df ! k)) [0..<?n] @ [v]"
    if k: "k < length (rows df)" for k
  proof -
    from rs k have "traverse (\<lambda>(n, f). f k (rows df ! k)) nfs = Inr (rows df' ! k)" by simp
    then show ?thesis
      by (auto simp: nfs p traverse_append traverse_map traverse_total split: sum.splits)
  qed
  from False have F: "(\<exists>i < length (columns df). same_name (columns df ! i) name) = False" by simp
  show ?thesis unfolding F if_False using c cols len rowfact by blast
qed

lemma resolve_eqI:
  assumes "\<And>j. (j < length cs' \<and> same_name (cs' ! j) m) \<longleftrightarrow> (j < length cs \<and> same_name (cs ! j) m)"
  shows "resolve cs' m = resolve cs m"
proof -
  let ?a = "filter (\<lambda>i. same_name (cs' ! i) m) [0..<length cs']"
  let ?b = "filter (\<lambda>i. same_name (cs ! i) m) [0..<length cs]"
  have "set ?a = set ?b" using assms by auto
  moreover have "sorted ?a" "distinct ?a" "sorted ?b" "distinct ?b" by (simp_all add: sorted_wrt_filter)
  ultimately have "?a = ?b" by (rule sorted_distinct_set_unique [rotated 4])
  then show ?thesis by (simp add: resolve_def)
qed

lemma withColumn_length:
  "withColumn name c df = Inr df' \<Longrightarrow> length (rows df') = length (rows df)"
  using withColumn_Inr by blast

lemma withColumn_names:
  assumes "withColumn name c df = Inr df'"
  shows "length (columns df) \<le> length (columns df')"
    and "j < length (columns df) \<Longrightarrow> \<not> same_name (columns df ! j) name \<Longrightarrow> columns df' ! j = columns df ! j"
    and "j < length (columns df) \<Longrightarrow> same_name (columns df ! j) name \<Longrightarrow> columns df' ! j = name"
    and "j < length (columns df') \<Longrightarrow> length (columns df) \<le> j \<Longrightarrow> columns df' ! j = name"
    and "j < length (columns df') \<Longrightarrow> length (columns df) \<le> j \<Longrightarrow> i < length (columns df) \<Longrightarrow>
           \<not> same_name (columns df ! i) name"
proof -
  from withColumn_Inr [OF assms] have
    cols: "columns df' =
       (if \<exists>i < length (columns df). same_name (columns df ! i) name
        then map (\<lambda>i. if same_name (columns df ! i) name then name else columns df ! i) [0..<length (columns df)]
        else columns df @ [name])"
    by blast
  show "length (columns df) \<le> length (columns df')" by (simp add: cols)
  show "j < length (columns df) \<Longrightarrow> \<not> same_name (columns df ! j) name \<Longrightarrow> columns df' ! j = columns df ! j"
    by (simp add: cols nth_append)
  show "j < length (columns df) \<Longrightarrow> same_name (columns df ! j) name \<Longrightarrow> columns df' ! j = name"
    by (auto simp: cols)
  show "j < length (columns df') \<Longrightarrow> length (columns df) \<le> j \<Longrightarrow> columns df' ! j = name"
    by (auto simp: cols nth_append split: if_splits)
  show "j < length (columns df') \<Longrightarrow> length (columns df) \<le> j \<Longrightarrow> i < length (columns df) \<Longrightarrow>
           \<not> same_name (columns df ! i) name"
    by (auto simp: cols split: if_splits)
qed

lemma withColumn_resolve_other:
  assumes w: "withColumn name c df = Inr df'" and m: "\<not> same_name m name"
  shows "resolve (columns df') m = resolve (columns df) m"
proof (rule resolve_eqI)
  fix j
  note n = withColumn_names [OF w]
  have nm: "\<not> same_name name m" using m same_name_sym by blast
  show "(j < length (columns df') \<and> same_name (columns df' ! j) m) \<longleftrightarrow>
        (j < length (columns df) \<and> same_name (columns df ! j) m)"
  proof (cases "j < length (columns df)")
    case True
    show ?thesis
    proof (cases "same_name (columns df ! j) name")
      case hit: True
      with True n(3) have "columns df' ! j = name" by simp
      moreover have "\<not> same_name (columns df ! j) m"
        using hit m same_name_sym same_name_trans by blast
      ultimately show ?thesis using nm by simp
    next
      case False
      with True n(2) have "columns df' ! j = columns df ! j" by simp
      with True n(1) show ?thesis by auto
    qed
  next
    case False
    then show ?thesis using n(4) [of j] nm by auto
  qed
qed

lemma withColumn_cells:
  assumes w: "withColumn name c df = Inr df'" and k: "k < length (rows df)"
  shows "length (rows df' ! k) = length (columns df')"
    and "j < length (columns df) \<Longrightarrow> \<not> same_name (columns df ! j) name \<Longrightarrow>
           cell (rows df' ! k) j = cell (rows df ! k) j"
    and "c (columns df) = Inr (nm, f) \<Longrightarrow> j < length (columns df') \<Longrightarrow> same_name (columns df' ! j) name \<Longrightarrow>
           f k (rows df ! k) = Inr (cell (rows df' ! k) j)"
proof -
  from withColumn_Inr [OF w] k obtain nm' f' v where
    c: "c (columns df) = Inr (nm', f')" and
    cols: "columns df' =
       (if \<exists>i < length (columns df). same_name (columns df ! i) name
        then map (\<lambda>i. if same_name (columns df ! i) name then name else columns df ! i) [0..<length (columns df)]
        else columns df @ [name])" and
    v: "f' k (rows df ! k) = Inr v" and
    r: "rows df' ! k =
          (if \<exists>i < length (columns df). same_name (columns df ! i) name
           then map (\<lambda>i. if same_name (columns df ! i) name then v else cell (rows df ! k) i) [0..<length (columns df)]
           else map (cell (rows df ! k)) [0..<length (columns df)] @ [v])"
    by blast
  show "length (rows df' ! k) = length (columns df')"
    by (simp add: cols r)
  show "j < length (columns df) \<Longrightarrow> \<not> same_name (columns df ! j) name \<Longrightarrow>
           cell (rows df' ! k) j = cell (rows df ! k) j"
    by (simp add: r cell_def nth_append)
  show "f k (rows df ! k) = Inr (cell (rows df' ! k) j)"
    if "c (columns df) = Inr (nm, f)" "j < length (columns df')" "same_name (columns df' ! j) name"
  proof -
    from that c have f: "f' = f" by simp
    show ?thesis
    proof (cases "\<exists>i < length (columns df). same_name (columns df ! i) name")
      case True
      with that(2) cols have j: "j < length (columns df)" by simp
      have "same_name (columns df ! j) name"
      proof (rule ccontr)
        assume "\<not> same_name (columns df ! j) name"
        with True cols j have "columns df' ! j = columns df ! j" by simp
        with that(3) \<open>\<not> same_name (columns df ! j) name\<close> show False by simp
      qed
      with True j have "cell (rows df' ! k) j = v" by (simp add: r cell_def)
      with v f show ?thesis by simp
    next
      case False
      have jl: "j = length (columns df)"
      proof (rule ccontr)
        assume "j \<noteq> length (columns df)"
        with that(2) False cols have j: "j < length (columns df)" by simp
        with False cols have "columns df' ! j = columns df ! j" by (simp add: nth_append)
        with that(3) False j show False by auto
      qed
      from False jl have "cell (rows df' ! k) j = v" by (auto simp: r cell_def nth_append)
      with v f show ?thesis by simp
    qed
  qed
qed

lemma field_resolved: "resolve cs n = Inr i \<Longrightarrow> field cs r n = cell r i"
  by (simp add: field_def)

lemma withColumn_field_other:
  assumes w: "withColumn name c df = Inr df'" and k: "k < length (rows df)" and m: "\<not> same_name m name"
  shows "field (columns df') (rows df' ! k) m = field (columns df) (rows df ! k) m"
proof (cases "resolve (columns df) m")
  case (Inl e)
  then show ?thesis by (simp add: field_def withColumn_resolve_other [OF w m])
next
  case (Inr i)
  then have i: "i < length (columns df)" "same_name (columns df ! i) m"
    by (simp_all add: resolve_Inr_iff)
  have "\<not> same_name (columns df ! i) name"
    using i(2) m same_name_sym same_name_trans by blast
  with withColumn_cells(2) [OF w k i(1)] have "cell (rows df' ! k) i = cell (rows df ! k) i" by simp
  with Inr show ?thesis by (simp add: field_def withColumn_resolve_other [OF w m])
qed

lemma withColumn_field_new:
  assumes w: "withColumn name c df = Inr df'" and k: "k < length (rows df)"
    and c: "c (columns df) = Inr (nm, f)" and i: "resolve (columns df') name = Inr i"
  shows "f k (rows df ! k) = Inr (field (columns df') (rows df' ! k) name)"
proof -
  from i have "i < length (columns df')" "same_name (columns df' ! i) name"
    by (simp_all add: resolve_Inr_iff)
  from withColumn_cells(3) [OF w k c this] i show ?thesis by (simp add: field_def)
qed

lemma and_then_pure:
  "and_then (pure_step m) f st = (case m of Inl e \<Rightarrow> (Inl e, st) | Inr x \<Rightarrow> f x st)"
  by (simp add: and_then_def pure_step_def split: sum.splits)

lemma and_then_write:
  "and_then (write_parquet df keys p) f st =
     (case traverse (resolve (columns df)) keys of
        Inl e \<Rightarrow> (Inl e, st)
      | Inr ks \<Rightarrow> f () (st(p \<mapsto> \<lparr>partitioned_by = keys, table = df\<rparr>)))"
  by (simp add: and_then_def write_parquet_def split: sum.splits)

lemma map_enumerate_snd: "map (\<lambda>(k, r). g r) (enumerate n xs) = map g xs"
  by (induction xs arbitrary: n) auto

lemma select_plain:
  assumes "traverse (\<lambda>c. c (columns df)) cs = Inr (map (\<lambda>(a, i). (a, \<lambda>k r. Inr (cell r i))) ais)"
  shows "select cs df = Inr \<lparr>columns = map fst ais, rows = map (\<lambda>r. map (\<lambda>(a, i). cell r i) ais) (rows df)\<rparr>"
proof -
  have "traverse (\<lambda>(k, r). traverse (\<lambda>(n, f). f k r) (map (\<lambda>(a, i). (a, \<lambda>k r. Inr (cell r i))) ais))
          (enumerate 0 (rows df)) =
        traverse (\<lambda>(k, r). Inr (map (\<lambda>(a, i). cell r i) ais)) (enumerate 0 (rows df))"
    by (rule traverse_cong) (auto simp: traverse_map case_prod_unfold traverse_total)
  also have "\<dots> = Inr (map (\<lambda>(k, r). map (\<lambda>(a, i). cell r i) ais) (enumerate 0 (rows df)))"
    using traverse_total [of "\<lambda>(k, r). map (\<lambda>(a, i). cell r i) ais"] by (simp add: case_prod_unfold)
  also have "\<dots> = Inr (map (\<lambda>r. map (\<lambda>(a, i). cell r i) ais) (rows df))"
    by (simp only: map_enumerate_snd)
  finally show ?thesis
    by (auto simp: select_def assms)
qed

lemma col_pick: "col n = pick (n, n)"
  by (rule ext) (simp add: pick_def alias_to_def col_def split: sum.splits)

lemma alias_pick: "alias_to (pick (s, b)) a = pick (s, a)"
  by (rule ext) (simp add: pick_def alias_to_def split: sum.splits)

lemma pick_Inr:
  "pick p cs = Inr q \<longleftrightarrow>
     (\<exists>i. resolve cs (fst p) = Inr i) \<and> q = (snd p, \<lambda>k r. Inr (field cs r (fst p)))"
  by (auto simp: pick_def alias_to_def col_def field_def split: sum.splits)

lemma traverse_picks:
  "traverse (\<lambda>p. pick p cs) ps = Inr nfs \<longleftrightarrow>
     (\<forall>p \<in> set ps. \<exists>i. resolve cs (fst p) = Inr i) \<and>
     nfs = map (\<lambda>p. (snd p, \<lambda>k r. Inr (field cs r (fst p)))) ps"
proof (induction ps arbitrary: nfs)
  case Nil
  then show ?case by auto
next
  case (Cons p ps)
  show ?case
  proof (cases "pick p cs")
    case (Inl e)
    then have "\<not> (\<exists>i. resolve cs (fst p) = Inr i)"
      by (auto simp: pick_def alias_to_def col_def split: sum.splits)
    with Inl show ?thesis by auto
  next
    case (Inr q)
    then have q: "(\<exists>i. resolve cs (fst p) = Inr i)" "q = (snd p, \<lambda>k r. Inr (field cs r (fst p)))"
      by (simp_all add: pick_Inr)
    show ?thesis
    proof (cases "traverse (\<lambda>p. pick p cs) ps")
      case (Inl e)
      with Cons.IH have "\<not> (\<forall>p \<in> set ps. \<exists>i. resolve cs (fst p) = Inr i)" by auto
      with Inl Inr show ?thesis by auto
    next
      case inr: (Inr ms)
      with Cons.IH [of ms] have "(\<forall>p \<in> set ps. \<exists>i. resolve cs (fst p) = Inr i)"
        "ms = map (\<lambda>p. (snd p, \<lambda>k r. Inr (field cs r (fst p)))) ps" by auto
      with Inr inr q show ?thesis by auto
    qed
  qed
qed

lemma select_total:
  assumes "traverse (\<lambda>c. c (columns df)) cs = Inr (map (\<lambda>p. (a p, \<lambda>k r. Inr (g p r))) ps)"
  shows "select cs df = Inr \<lparr>columns = map a ps, rows = map (\<lambda>r. map (\<lambda>p. g p r) ps) (rows df)\<rparr>"
proof -
  have "traverse (\<lambda>(k, r). traverse (\<lambda>(n, f). f k r) (map (\<lambda>p. (a p, \<lambda>k r. Inr (g p r))) ps))
          (enumerate 0 (rows df)) =
        traverse (\<lambda>(k, r). Inr (map (\<lambda>p. g p r) ps)) (enumerate 0 (rows df))"
    by (rule traverse_cong) (auto simp: traverse_map traverse_total)
  also have "\<dots> = Inr (map (\<lambda>(k, r). map (\<lambda>p. g p r) ps) (enumerate 0 (rows df)))"
    using traverse_total [of "\<lambda>(k, r). map (\<lambda>p. g p r) ps"] by (simp add: case_prod_unfold)
  also have "\<dots> = Inr (map (\<lambda>r. map (\<lambda>p. g p r) ps) (rows df))"
    by (simp only: map_enumerate_snd)
  finally show ?thesis
    by (auto simp: select_def assms comp_def)
qed

lemma select_picks:
  assumes "select (map pick ps) df = Inr t"
  shows "columns t = map snd ps"
    and "rows t = map (\<lambda>r. map (\<lambda>p. field (columns df) r (fst p)) ps) (rows df)"
    and "\<forall>p \<in> set ps. \<exists>i. resolve (columns df) (fst p) = Inr i"
proof -
  from assms obtain nfs where n: "traverse (\<lambda>c. c (columns df)) (map pick ps) = Inr nfs"
    by (auto simp: select_def split: sum.splits)
  then have "traverse (\<lambda>p. pick p (columns df)) ps = Inr nfs" by (simp add: traverse_map)
  then have r: "\<forall>p \<in> set ps. \<exists>i. resolve (columns df) (fst p) = Inr i"
    and nfs: "nfs = map (\<lambda>p. (snd p, \<lambda>k r. Inr (field (columns df) r (fst p)))) ps"
    by (simp_all add: traverse_picks)
  from select_total [of df "map pick ps" snd "\<lambda>p r. field (columns df) r (fst p)" ps] n nfs assms
  have "t = \<lparr>columns = map snd ps, rows = map (\<lambda>r. map (\<lambda>p. field (columns df) r (fst p)) ps) (rows df)\<rparr>"
    by simp
  then show "columns t = map snd ps"
    and "rows t = map (\<lambda>r. map (\<lambda>p. field (columns df) r (fst p)) ps) (rows df)" by simp_all
  show "\<forall>p \<in> set ps. \<exists>i. resolve (columns df) (fst p) = Inr i" by (rule r)
qed

lemma process_song_data_success:
  assumes "fst (process_song_data spark input_data output_dir st) = Inr res"
  obtains songs_table artists_table where
    "read_json spark input_data = Inr res"
    "select (map pick [(''song_id'', ''song_id''), (''title'', ''title''), (''artist_id'', ''artist_id''),
                       (''year'', ''year''), (''duration'', ''duration'')]) res = Inr songs_table"
    "select (map pick [(''artist_id'', ''artist_id''), (''artist_name'', ''name''),
                       (''artist_location'', ''location''), (''artist_latitude'', ''latitude''),
                       (''artist_longitude'', ''longitude'')]) res = Inr artists_table"
    "\<And>st0. process_song_data spark input_data output_dir st0 =
       (Inr res, st0(output_dir @ ''/songs.parquet'' \<mapsto> \<lparr>partitioned_by = [''year'', ''artist_id''], table = songs_table\<rparr>,
                     output_dir @ ''/artists.parquet'' \<mapsto> \<lparr>partitioned_by = [], table = artists_table\<rparr>))"
  using assms
  by (auto simp: process_song_data_def and_then_pure and_then_write done_with_def col_pick alias_pick
           split: sum.splits)

lemma kept_refl: "kept [] df df"
  by (simp add: kept_def)

lemma kept_trans: "kept a df df' \<Longrightarrow> kept b df' df'' \<Longrightarrow> kept (a @ b) df df''"
  by (auto simp: kept_def)

lemma withColumn_kept: "withColumn name c df = Inr df' \<Longrightarrow> kept [name] df df'"
  by (simp add: kept_def withColumn_length withColumn_resolve_other withColumn_field_other)

lemma kept_length: "kept names df df' \<Longrightarrow> length (rows df') = length (rows df)"
  by (simp add: kept_def)

lemma kept_resolve:
  "kept names df df' \<Longrightarrow> \<forall>x \<in> set names. \<not> same_name m x \<Longrightarrow> resolve (columns df') m = resolve (columns df) m"
  by (simp add: kept_def)

lemma kept_field:
  "kept names df df' \<Longrightarrow> \<forall>x \<in> set names. \<not> same_name m x \<Longrightarrow> k < length (rows df) \<Longrightarrow>
     field (columns df') (rows df' ! k) m = field (columns df) (rows df ! k) m"
  by (simp add: kept_def)

lemma get_timestamp_fn_Ts: "get_timestamp_fn spark x = Inr v \<Longrightarrow> \<exists>t. v = Ts t"
  by (auto simp: get_timestamp_fn_def from_seconds_def split: val.splits option.splits)

lemma block_offset_unique:
  assumes "block_offset cs sch = Inr k" and "take (length cs) (drop j sch) = cs" and "j \<le> length sch - length cs"
  shows "k = j"
proof -
  from assms(1) have "filter (\<lambda>k. take (length cs) (drop k sch) = cs) [0..<Suc (length sch - length cs)] = [k]"
    by (auto simp: block_offset_def split: list.splits)
  then have "\<forall>y \<in> set [0..<Suc (length sch - length cs)]. take (length cs) (drop y sch) = cs \<longrightarrow> y = k"
    by (subst (asm) singleton_filter) auto
  with assms(2,3) show ?thesis by auto
qed

lemma start_time_step:
  assumes w: "withColumn ''start_time'' (get_timestamp spark (df_col df ''ts'')) df = Inr df'"
    and k: "k < length (rows df)"
    and r: "resolve (columns df') ''start_time'' = Inr i"
  shows "\<exists>t. get_timestamp_fn spark (field (columns df) (rows df ! k) ''ts'') = Inr (Ts t) \<and>
             field (columns df') (rows df' ! k) ''start_time'' = Ts t"
proof -
  from withColumn_Inr [OF w] obtain nm f where c: "get_timestamp spark (df_col df ''ts'') (columns df) = Inr (nm, f)"
    by blast
  then obtain j where j: "resolve (columns df) ''ts'' = Inr j"
    by (auto simp: get_timestamp_def apply1_def df_col_def split: sum.splits)
  from c j have f: "f = (\<lambda>k r. get_timestamp_fn spark (cell r j))"
    by (auto simp: get_timestamp_def apply1_def df_col_def block_offset_self)
  from withColumn_field_new [OF w k c r] f j
  have "get_timestamp_fn spark (field (columns df) (rows df ! k) ''ts'') =
          Inr (field (columns df') (rows df' ! k) ''start_time'')"
    by (simp add: field_def)
  with get_timestamp_fn_Ts [OF this] show ?thesis by auto
qed

lemma calendar_step:
  assumes w: "withColumn name (apply1 fname (on_timestamp g) (col ''start_time'')) df = Inr df'"
    and k: "k < length (rows df)"
    and st: "field (columns df) (rows df ! k) ''start_time'' = Ts t"
    and r: "resolve (columns df') name = Inr i"
  shows "field (columns df') (rows df' ! k) name = Long (g t)"
proof -
  from withColumn_Inr [OF w] obtain nm f where
    c: "apply1 fname (on_timestamp g) (col ''start_time'') (columns df) = Inr (nm, f)"
    by blast
  then obtain j where j: "resolve (columns df) ''start_time'' = Inr j"
    by (auto simp: apply1_def col_def split: sum.splits)
  from c j have f: "f = (\<lambda>k r. on_timestamp g (cell r j))"
    by (auto simp: apply1_def col_def)
  from withColumn_field_new [OF w k c r] f j st show ?thesis
    by (simp add: field_def on_timestamp_def)
qed

lemma calendar_step_resolves:
  assumes w: "withColumn name (apply1 fname (on_timestamp g) (col ''start_time'')) df = Inr df'"
  shows "\<exists>j. resolve (columns df) ''start_time'' = Inr j"
proof -
  from withColumn_Inr [OF w] obtain nm f where
    "apply1 fname (on_timestamp g) (col ''start_time'') (columns df) = Inr (nm, f)"
    by blast
  then show ?thesis
    by (auto simp: apply1_def col_def split: sum.splits)
qed

lemma log_chain:
  assumes w1: "withColumn ''start_time'' (get_timestamp spark (df_col plays ''ts'')) plays = Inr df1"
    and w2: "withColumn ''hour'' (hour spark ''start_time'') df1 = Inr df2"
    and w3: "withColumn ''day'' (dayofweek spark ''start_time'') df2 = Inr df3"
    and w4: "withColumn ''week'' (weekofyear spark ''start_time'') df3 = Inr df4"
    and w5: "withColumn ''month'' (month spark ''start_time'') df4 = Inr df5"
    and w6: "withColumn ''year'' (year spark ''start_time'') df5 = Inr df6"
    and w7: "withColumn ''weekday'' (dayofweek spark ''start_time'') df6 = Inr res"
    and tt: "select (map pick [(''start_time'', ''start_time''), (''hour'', ''hour''), (''day'', ''day''),
                              (''week'', ''week''), (''month'', ''month''), (''year'', ''year''),
                              (''weekday'', ''weekday'')]) res = Inr time_table"
  shows "kept [''start_time'', ''hour'', ''day'', ''week'', ''month'', ''year'', ''weekday''] plays res"
    and "k < length (rows plays) \<Longrightarrow> length (rows res ! k) = length (columns res)"
    and "k < length (rows plays) \<Longrightarrow>
         \<exists>t. get_timestamp_fn spark (field (columns plays) (rows plays ! k) ''ts'') = Inr (Ts t) \<and>
             field (columns res) (rows res ! k) ''start_time'' = Ts t \<and>
             field (columns res) (rows res ! k) ''hour'' = Long (hour_of spark t) \<and>
             field (columns res) (rows res ! k) ''day'' = Long (dayofweek_of spark t) \<and>
             field (columns res) (rows res ! k) ''week'' = Long (weekofyear_of spark t) \<and>
             field (columns res) (rows res ! k) ''month'' = Long (month_of spark t) \<and>
             field (columns res) (rows res ! k) ''year'' = Long (year_of spark t) \<and>
             field (columns res) (rows res ! k) ''weekday'' = Long (dayofweek_of spark t)"
proof -
  note k1 = withColumn_kept [OF w1] and k2 = withColumn_kept [OF w2] and k3 = withColumn_kept [OF w3]
    and k4 = withColumn_kept [OF w4] and k5 = withColumn_kept [OF w5] and k6 = withColumn_kept [OF w6]
    and k7 = withColumn_kept [OF w7]
  have a6: "kept [''weekday''] df6 res" by (rule k7)
  have a5: "kept [''year'', ''weekday''] df5 res" using kept_trans [OF k6 a6] by simp
  have a4: "kept [''month'', ''year'', ''weekday''] df4 res" using kept_trans [OF k5 a5] by simp
  have a3: "kept [''week'', ''month'', ''year'', ''weekday''] df3 res" using kept_trans [OF k4 a4] by simp
  have a2: "kept [''day'', ''week'', ''month'', ''year'', ''weekday''] df2 res" using kept_trans [OF k3 a3] by simp
  have a1: "kept [''hour'', ''day'', ''week'', ''month'', ''year'', ''weekday''] df1 res"
    using kept_trans [OF k2 a2] by simp
  show a0: "kept [''start_time'', ''hour'', ''day'', ''week'', ''month'', ''year'', ''weekday''] plays res"
    using kept_trans [OF k1 a1] by simp
  have l1: "length (rows df1) = length (rows plays)" by (rule kept_length [OF k1])
  have l2: "length (rows df2) = length (rows plays)" using kept_length [OF k2] l1 by simp
  have l3: "length (rows df3) = length (rows plays)" using kept_length [OF k3] l2 by simp
  have l4: "length (rows df4) = length (rows plays)" using kept_length [OF k4] l3 by simp
  have l5: "length (rows df5) = length (rows plays)" using kept_length [OF k5] l4 by simp
  have l6: "length (rows df6) = length (rows plays)" using kept_length [OF k6] l5 by simp
  show "length (rows res ! k) = length (columns res)" if "k < length (rows plays)"
    using withColumn_cells(1) [OF w7, of k] that l6 by simp
  from select_picks(3) [OF tt] obtain i0 i1 i2 i3 i4 i5 i6 where
    r: "resolve (columns res) ''start_time'' = Inr i0" "resolve (columns res) ''hour'' = Inr i1"
       "resolve (columns res) ''day'' = Inr i2" "resolve (columns res) ''week'' = Inr i3"
       "resolve (columns res) ''month'' = Inr i4" "resolve (columns res) ''year'' = Inr i5"
       "resolve (columns res) ''weekday'' = Inr i6"
    by auto
  have n: "\<not> same_name ''start_time'' ''hour''" "\<not> same_name ''start_time'' ''day''"
    "\<not> same_name ''start_time'' ''week''" "\<not> same_name ''start_time'' ''month''"
    "\<not> same_name ''start_time'' ''year''" "\<not> same_name ''start_time'' ''weekday''"
    "\<not> same_name ''hour'' ''day''" "\<not> same_name ''hour'' ''week''" "\<not> same_name ''hour'' ''month''"
    "\<not> same_name ''hour'' ''year''" "\<not> same_name ''hour'' ''weekday''"
    "\<not> same_name ''day'' ''week''" "\<not> same_name ''day'' ''month''" "\<not> same_name ''day'' ''year''"
    "\<not> same_name ''day'' ''weekday''"
    "\<not> same_name ''week'' ''month''" "\<not> same_name ''week'' ''year''" "\<not> same_name ''week'' ''weekday''"
    "\<not> same_name ''month'' ''year''" "\<not> same_name ''month'' ''weekday''"
    "\<not> same_name ''year'' ''weekday''"
    by (simp_all add: same_name_def)
  have r1: "resolve (columns df1) ''start_time'' = Inr i0" using kept_resolve [OF a1, of "''start_time''"] r n by simp
  have r2: "resolve (columns df2) ''hour'' = Inr i1" using kept_resolve [OF a2, of "''hour''"] r n by simp
  have r3: "resolve (columns df3) ''day'' = Inr i2" using kept_resolve [OF a3, of "''day''"] r n by simp
  have r4: "resolve (columns df4) ''week'' = Inr i3" using kept_resolve [OF a4, of "''week''"] r n by simp
  have r5: "resolve (columns df5) ''month'' = Inr i4" using kept_resolve [OF a5, of "''month''"] r n by simp
  have r6: "resolve (columns df6) ''year'' = Inr i5" using kept_resolve [OF a6, of "''year''"] r n by simp
  show "\<exists>t. get_timestamp_fn spark (field (columns plays) (rows plays ! k) ''ts'') = Inr (Ts t) \<and>
             field (columns res) (rows res ! k) ''start_time'' = Ts t \<and>
             field (columns res) (rows res ! k) ''hour'' = Long (hour_of spark t) \<and>
             field (columns res) (rows res ! k) ''day'' = Long (dayofweek_of spark t) \<and>
             field (columns res) (rows res ! k) ''week'' = Long (weekofyear_of spark t) \<and>
             field (columns res) (rows res ! k) ''month'' = Long (month_of spark t) \<and>
             field (columns res) (rows res ! k) ''year'' = Long (year_of spark t) \<and>
             field (columns res) (rows res ! k) ''weekday'' = Long (dayofweek_of spark t)"
    if k: "k < length (rows plays)"
  proof -
    from start_time_step [OF w1 k r1] obtain t where
      t: "get_timestamp_fn spark (field (columns plays) (rows plays ! k) ''ts'') = Inr (Ts t)"
      and s1: "field (columns df1) (rows df1 ! k) ''start_time'' = Ts t" by blast
    have s2: "field (columns df2) (rows df2 ! k) ''start_time'' = Ts t"
      using kept_field [OF k2, of "''start_time''" k] n s1 k l1 by simp
    have s3: "field (columns df3) (rows df3 ! k) ''start_time'' = Ts t"
      using kept_field [OF k3, of "''start_time''" k] n s2 k l2 by simp
    have s4: "field (columns df4) (rows df4 ! k) ''start_time'' = Ts t"
      using kept_field [OF k4, of "''start_time''" k] n s3 k l3 by simp
    have s5: "field (columns df5) (rows df5 ! k) ''start_time'' = Ts t"
      using kept_field [OF k5, of "''start_time''" k] n s4 k l4 by simp
    have s6: "field (columns df6) (rows df6 ! k) ''start_time'' = Ts t"
      using kept_field [OF k6, of "''start_time''" k] n s5 k l5 by simp
    have s7: "field (columns res) (rows res ! k) ''start_time'' = Ts t"
      using kept_field [OF k7, of "''start_time''" k] n s6 k l6 by simp
    have "field (columns df2) (rows df2 ! k) ''hour'' = Long (hour_of spark t)"
      using calendar_step [OF w2 [unfolded hour_def] _ s1 r2] k l1 by simp
    then have h: "field (columns res) (rows res ! k) ''hour'' = Long (hour_of spark t)"
      using kept_field [OF a2, of "''hour''" k] n k l2 by simp
    have "field (columns df3) (rows df3 ! k) ''day'' = Long (dayofweek_of spark t)"
      using calendar_step [OF w3 [unfolded dayofweek_def] _ s2 r3] k l2 by simp
    then have d: "field (columns res) (rows res ! k) ''day'' = Long (dayofweek_of spark t)"
      using kept_field [OF a3, of "''day''" k] n k l3 by simp
    have "field (columns df4) (rows df4 ! k) ''week'' = Long (weekofyear_of spark t)"
      using calendar_step [OF w4 [unfolded weekofyear_def] _ s3 r4] k l3 by simp
    then have w: "field (columns res) (rows res ! k) ''week'' = Long (weekofyear_of spark t)"
      using kept_field [OF a4, of "''week''" k] n k l4 by simp
    have "field (columns df5) (rows df5 ! k) ''month'' = Long (month_of spark t)"
      using calendar_step [OF w5 [unfolded month_def] _ s4 r5] k l4 by simp
    then have m: "field (columns res) (rows res ! k) ''month'' = Long (month_of spark t)"
      using kept_field [OF a5, of "''month''" k] n k l5 by simp
    have "field (columns df6) (rows df6 ! k) ''year'' = Long (year_of spark t)"
      using calendar_step [OF w6 [unfolded year_def] _ s5 r6] k l5 by simp
    then have y: "field (columns res) (rows res ! k) ''year'' = Long (year_of spark t)"
      using kept_field [OF a6, of "''year''" k] n k l6 by simp
    have wd: "field (columns res) (rows res ! k) ''weekday'' = Long (dayofweek_of spark t)"
      using calendar_step [OF w7 [unfolded dayofweek_def] _ s6 r(7)] k l6 by simp
    from t s7 h d w m y wd show ?thesis by blast
  qed
qed

lemma resolve_append_left:
  assumes "resolve (a @ b) n = Inr k" and "resolve a n = Inr i"
  shows "k = i"
proof -
  from assms(2) have "i < length a" "same_name (a ! i) n" by (simp_all add: resolve_Inr_iff)
  then have "i < length (a @ b)" "same_name ((a @ b) ! i) n" by (simp_all add: nth_append)
  with assms(1) show ?thesis by (simp add: resolve_Inr_iff)
qed

lemma resolve_append_right:
  assumes "resolve (a @ b) n = Inr k" and "resolve b n = Inr j"
  shows "k = length a + j"
proof -
  from assms(2) have "j < length b" "same_name (b ! j) n" by (simp_all add: resolve_Inr_iff)
  then have "length a + j < length (a @ b)" "same_name ((a @ b) ! (length a + j)) n"
    by (simp_all add: nth_append)
  moreover from assms(1) have "\<forall>i < length (a @ b). same_name ((a @ b) ! i) n \<longrightarrow> i = k"
    by (simp only: resolve_Inr_iff) blast
  ultimately show ?thesis by blast
qed

lemma cell_append_left: "i < length l \<Longrightarrow> cell (l @ r) i = cell l i"
  by (simp add: cell_def nth_append)

lemma cell_append_right: "cell (l @ r) (length l + j) = cell r j"
  by (simp add: cell_def nth_append)

lemma field_append_left:
  assumes "resolve (a @ b) n = Inr k" and "resolve a n = Inr i" and "length l = length a"
  shows "field (a @ b) (l @ r) n = field a l n"
proof -
  from assms(2) have "i < length a" by (simp add: resolve_Inr_iff)
  with assms resolve_append_left [OF assms(1,2)] show ?thesis
    by (simp add: field_def cell_append_left)
qed

lemma field_append_right:
  assumes "resolve (a @ b) n = Inr k" and "resolve b n = Inr j" and "length l = length a"
  shows "field (a @ b) (l @ r) n = field b r n"
  using assms resolve_append_right [OF assms(1,2)] cell_append_right [where l = l and j = j and r = r]
  by (simp add: field_def)

lemma and3_eq3_True:
  "and3 (eq3 x y) (eq3 u v) = Bool True \<longleftrightarrow> x \<noteq> Null \<and> x = y \<and> u \<noteq> Null \<and> u = v"
  by (auto simp: and3_def eq3_def)

lemma join_left_Inr:
  assumes j: "join_left left right
                (and_col (eq_col (df_col left ''artist'') (df_col right ''artist_name''))
                         (eq_col (df_col left ''song'') (df_col right ''title''))) = Inr joined"
    and wf: "\<forall>l \<in> set (rows left). length l = length (columns left)"
  shows "columns joined = columns left @ columns right"
    and "rows joined =
          concat (map (\<lambda>l. if catalog_hits left right l = []
                            then [l @ replicate (length (columns right)) Null]
                            else map (\<lambda>r. l @ r) (catalog_hits left right l)) (rows left))"
    and "\<exists>i. resolve (columns left) ''artist'' = Inr i"
    and "\<exists>i. resolve (columns left) ''song'' = Inr i"
proof -
  let ?sch = "columns left @ columns right"
  from j obtain n f where
    c: "and_col (eq_col (df_col left ''artist'') (df_col right ''artist_name''))
                (eq_col (df_col left ''song'') (df_col right ''title'')) ?sch = Inr (n, f)"
    and jd: "joined = \<lparr>columns = ?sch, rows = concat (map (join_row f right) (rows left))\<rparr>"
    by (auto simp: join_left_def split: sum.splits)
  from c obtain ia ib ic id ka kb where
    r: "resolve (columns left) ''artist'' = Inr ia" "resolve (columns right) ''artist_name'' = Inr ib"
       "resolve (columns left) ''song'' = Inr ic" "resolve (columns right) ''title'' = Inr id"
    and b: "block_offset (columns left) ?sch = Inr ka" "block_offset (columns right) ?sch = Inr kb"
    by (auto simp: and_col_def eq_col_def lift2_def df_col_def split: sum.splits)
  have ka: "ka = 0" by (rule block_offset_unique [OF b(1)]) simp_all
  have kb: "kb = length (columns left)" by (rule block_offset_unique [OF b(2)]) simp_all
  from c r b ka kb have f: "f = (\<lambda>k row. Inr (and3 (eq3 (cell row ia) (cell row (length (columns left) + ib)))
                                                (eq3 (cell row ic) (cell row (length (columns left) + id)))))"
    by (auto simp: and_col_def eq_col_def lift2_def df_col_def)
  from r have lt: "ia < length (columns left)" "ic < length (columns left)"
    by (simp_all add: resolve_Inr_iff)
  have m: "matches f (rows right) l = catalog_hits left right l" if "l \<in> set (rows left)" for l
  proof -
    from that wf have len: "length l = length (columns left)" by simp
    have "cell (l @ x) ia = cell l ia" "cell (l @ x) ic = cell l ic"
      "cell (l @ x) (length (columns left) + ib) = cell x ib"
      "cell (l @ x) (length (columns left) + id) = cell x id" for x
      using lt len cell_append_right [where l = l and r = x] by (simp_all add: cell_append_left)
    then show ?thesis
      by (simp add: matches_def catalog_hits_def f and3_eq3_True field_def r)
  qed
  show "columns joined = columns left @ columns right" by (simp add: jd)
  have rj: "rows joined = concat (map (join_row f right) (rows left))" by (simp add: jd)
  have eq: "map (join_row f right) (rows left) =
        map (\<lambda>l. if catalog_hits left right l = []
                  then [l @ replicate (length (columns right)) Null]
                  else map (\<lambda>r. l @ r) (catalog_hits left right l)) (rows left)"
    by (rule map_cong) (simp_all add: join_row_def m)
  show "rows joined =
          concat (map (\<lambda>l. if catalog_hits left right l = []
                            then [l @ replicate (length (columns right)) Null]
                            else map (\<lambda>r. l @ r) (catalog_hits left right l)) (rows left))"
    by (simp only: rj eq)
  show "\<exists>i. resolve (columns left) ''artist'' = Inr i" "\<exists>i. resolve (columns left) ''song'' = Inr i"
    using r by auto
qed

lemma block_offset_Inr:
  assumes "block_offset cs sch = Inr k"
  shows "take (length cs) (drop k sch) = cs" and "k \<le> length sch - length cs"
proof -
  from assms have "filter (\<lambda>k. take (length cs) (drop k sch) = cs) [0..<Suc (length sch - length cs)] = [k]"
    by (auto simp: block_offset_def split: list.splits)
  then have "k \<in> set [0..<Suc (length sch - length cs)] \<and> take (length cs) (drop k sch) = cs"
    by (subst (asm) singleton_filter) auto
  then show "take (length cs) (drop k sch) = cs" and "k \<le> length sch - length cs" by auto
qed

lemma withColumn_name_literal:
  assumes w: "withColumn name c df = Inr df'"
    and j: "j < length (columns df')" and s: "same_name (columns df' ! j) name"
  shows "columns df' ! j = name"
proof (cases "j < length (columns df)")
  case True
  show ?thesis
  proof (cases "same_name (columns df ! j) name")
    case hit: True
    with withColumn_names(3) [OF w True] show ?thesis by simp
  next
    case False
    with withColumn_names(2) [OF w True] s show ?thesis by simp
  qed
next
  case False
  with withColumn_names(4) [OF w j] show ?thesis by simp
qed

lemma block_prefix_after_withColumn:
  assumes w: "withColumn name c df = Inr df'"
    and pre: "take (length cs) (columns df) = cs"
    and b: "block_offset cs (columns df') = Inr k"
  shows "k = 0"
proof -
  note bo = block_offset_Inr [OF b]
  from arg_cong [OF pre, of length] have lcs: "length cs \<le> length (columns df)"
    by simp
  note le = withColumn_names(1) [OF w]
  have "take (length cs) (columns df') = cs"
  proof (rule nth_equalityI)
    show "length (take (length cs) (columns df')) = length cs" using lcs le by simp
  next
    fix i assume "i < length (take (length cs) (columns df'))"
    then have i: "i < length cs" by simp
    from pre i have ci: "cs ! i = columns df ! i" by (metis nth_take)
    from i lcs have idf: "i < length (columns df)" by simp
    show "take (length cs) (columns df') ! i = cs ! i"
    proof (cases "same_name (columns df ! i) name")
      case False
      with withColumn_names(2) [OF w idf] i ci show ?thesis by simp
    next
      case True
      with withColumn_names(3) [OF w idf] have a: "columns df' ! i = name" by simp
      from bo(1) i have "cs ! i = take (length cs) (drop k (columns df')) ! i" by simp
      also have "\<dots> = columns df' ! (k + i)" using i bo(2) lcs le by simp
      finally have e: "cs ! i = columns df' ! (k + i)" .
      have "k + i < length (columns df')" using i bo(2) lcs le by simp
      moreover have "same_name (columns df' ! (k + i)) name" using e ci True by simp
      ultimately have "columns df' ! (k + i) = name" by (rule withColumn_name_literal [OF w])
      with e a i show ?thesis by simp
    qed
  qed
  then have "take (length cs) (drop 0 (columns df')) = cs" by simp
  from block_offset_unique [OF b this] show ?thesis by simp
qed

section \<open>The claims of the specification\<close>

text \<open>
  Claim C6. Whenever \<^verbatim>\<open>process_song_data\<close> completes, the songs table and the artists
  table it has written each hold exactly one row for every record of the song frame it
  read, in the order of the records: nothing is filtered and rows of the same artist are
  not merged. The songs table has the columns song_id, title, artist_id, year and
  duration, each with the value of the input column of the same name; the artists table
  has artist_id and the four artist columns under their shorter names.
\<close>

theorem song_tables_one_row_per_record:
  assumes "fst (process_song_data spark input_data output_dir st) = Inr df"
  shows "\<exists>songs_table artists_table.
           snd (process_song_data spark input_data output_dir st) (output_dir @ ''/songs.parquet'') =
             Some \<lparr>partitioned_by = [''year'', ''artist_id''], table = songs_table\<rparr> \<and>
           snd (process_song_data spark input_data output_dir st) (output_dir @ ''/artists.parquet'') =
             Some \<lparr>partitioned_by = [], table = artists_table\<rparr> \<and>
           read_json spark input_data = Inr df \<and>
           length (rows songs_table) = length (rows df) \<and>
           length (rows artists_table) = length (rows df) \<and>
           columns songs_table = [''song_id'', ''title'', ''artist_id'', ''year'', ''duration''] \<and>
           rows songs_table =
             map (\<lambda>r. [field (columns df) r ''song_id'', field (columns df) r ''title'',
                       field (columns df) r ''artist_id'', field (columns df) r ''year'',
                       field (columns df) r ''duration'']) (rows df) \<and>
           columns artists_table = [''artist_id'', ''name'', ''location'', ''latitude'', ''longitude''] \<and>
           rows artists_table =
             map (\<lambda>r. [field (columns df) r ''artist_id'', field (columns df) r ''artist_name'',
                       field (columns df) r ''artist_location'', field (columns df) r ''artist_latitude'',
                       field (columns df) r ''artist_longitude'']) (rows df)"
proof (rule process_song_data_success [OF assms])
  fix songs_table artists_table
  assume rd: "read_json spark input_data = Inr df"
    and s: "select (map pick [(''song_id'', ''song_id''), (''title'', ''title''), (''artist_id'', ''artist_id''),
                              (''year'', ''year''), (''duration'', ''duration'')]) df = Inr songs_table"
    and a: "select (map pick [(''artist_id'', ''artist_id''), (''artist_name'', ''name''),
                              (''artist_location'', ''location''), (''artist_latitude'', ''latitude''),
                              (''artist_longitude'', ''longitude'')]) df = Inr artists_table"
    and run: "\<And>st0. process_song_data spark input_data output_dir st0 =
       (Inr df, st0(output_dir @ ''/songs.parquet'' \<mapsto> \<lparr>partitioned_by = [''year'', ''artist_id''], table = songs_table\<rparr>,
                    output_dir @ ''/artists.parquet'' \<mapsto> \<lparr>partitioned_by = [], table = artists_table\<rparr>))"
  have p1: "snd (process_song_data spark input_data output_dir st) (output_dir @ ''/songs.parquet'') =
             Some \<lparr>partitioned_by = [''year'', ''artist_id''], table = songs_table\<rparr>"
    by (simp add: run)
  have p2: "snd (process_song_data spark input_data output_dir st) (output_dir @ ''/artists.parquet'') =
             Some \<lparr>partitioned_by = [], table = artists_table\<rparr>"
    by (simp add: run)
  have cs: "columns songs_table = [''song_id'', ''title'', ''artist_id'', ''year'', ''duration'']"
    using select_picks(1) [OF s] by simp
  have rs: "rows songs_table =
             map (\<lambda>r. [field (columns df) r ''song_id'', field (columns df) r ''title'',
                       field (columns df) r ''artist_id'', field (columns df) r ''year'',
                       field (columns df) r ''duration'']) (rows df)"
    using select_picks(2) [OF s] by simp
  have ca: "columns artists_table = [''artist_id'', ''name'', ''location'', ''latitude'', ''longitude'']"
    using select_picks(1) [OF a] by simp
  have ra: "rows artists_table =
             map (\<lambda>r. [field (columns df) r ''artist_id'', field (columns df) r ''artist_name'',
                       field (columns df) r ''artist_location'', field (columns df) r ''artist_latitude'',
                       field (columns df) r ''artist_longitude'']) (rows df)"
    using select_picks(2) [OF a] by simp
  have ls: "length (rows songs_table) = length (rows df)" by (simp add: rs)
  have la: "length (rows artists_table) = length (rows df)" by (simp add: ra)
  from p1 p2 rd ls la cs rs ca ra show ?thesis by blast
qed

theorem song_tables_one_row_per_record_witness:
  "fst (process_song_data utc ''song_data'' ''out'' Map.empty) = Inr song_frame \<and>
   (\<exists>songs_table artists_table.
           snd (process_song_data utc ''song_data'' ''out'' Map.empty) (''out'' @ ''/songs.parquet'') =
             Some \<lparr>partitioned_by = [''year'', ''artist_id''], table = songs_table\<rparr> \<and>
           snd (process_song_data utc ''song_data'' ''out'' Map.empty) (''out'' @ ''/artists.parquet'') =
             Some \<lparr>partitioned_by = [], table = artists_table\<rparr> \<and>
           read_json utc ''song_data'' = Inr song_frame \<and>
           length (rows songs_table) = length (rows song_frame) \<and>
           length (rows artists_table) = length (rows song_frame) \<and>
           columns songs_table = [''song_id'', ''title'', ''artist_id'', ''year'', ''duration''] \<and>
           rows songs_table =
             map (\<lambda>r. [field (columns song_frame) r ''song_id'', field (columns song_frame) r ''title'',
                       field (columns song_frame) r ''artist_id'', field (columns song_frame) r ''year'',
                       field (columns song_frame) r ''duration'']) (rows song_frame) \<and>
           columns artists_table = [''artist_id'', ''name'', ''location'', ''latitude'', ''longitude''] \<and>
           rows artists_table =
             map (\<lambda>r. [field (columns song_frame) r ''artist_id'', field (columns song_frame) r ''artist_name'',
                       field (columns song_frame) r ''artist_location'', field (columns song_frame) r ''artist_latitude'',
                       field (columns song_frame) r ''artist_longitude'']) (rows song_frame))"
proof (rule conjI)
  show h: "fst (process_song_data utc ''song_data'' ''out'' Map.empty) = Inr song_frame"
    by code_simp
  then show "\<exists>songs_table artists_table.
           snd (process_song_data utc ''song_data'' ''out'' Map.empty) (''out'' @ ''/songs.parquet'') =
             Some \<lparr>partitioned_by = [''year'', ''artist_id''], table = songs_table\<rparr> \<and>
           snd (process_song_data utc ''song_data'' ''out'' Map.empty) (''out'' @ ''/artists.parquet'') =
             Some \<lparr>partitioned_by = [], table = artists_table\<rparr> \<and>
           read_json utc ''song_data'' = Inr song_frame \<and>
           length (rows songs_table) = length (rows song_frame) \<and>
           length (rows artists_table) = length (rows song_frame) \<and>
           columns songs_table = [''song_id'', ''title'', ''artist_id'', ''year'', ''duration''] \<and>
           rows songs_table =
             map (\<lambda>r. [field (columns song_frame) r ''song_id'', field (columns song_frame) r ''title'',
                       field (columns song_frame) r ''artist_id'', field (columns song_frame) r ''year'',
                       field (columns song_frame) r ''duration'']) (rows song_frame) \<and>
           columns artists_table = [''artist_id'', ''name'', ''location'', ''latitude'', ''longitude''] \<and>
           rows artists_table =
             map (\<lambda>r. [field (columns song_frame) r ''artist_id'', field (columns song_frame) r ''artist_name'',
                       field (columns song_frame) r ''artist_location'', field (columns song_frame) r ''artist_latitude'',
                       field (columns song_frame) r ''artist_longitude'']) (rows song_frame)"
    by (rule song_tables_one_row_per_record)
qed

end
